theory Spec2Isabelle
  imports Complex_Main "HOL-Library.AList"
begin

section \<open>The s/c-metric engine of \<open>causallearn/graph/SCM.py\<close>\<close>

text \<open>
  The class \<open>SCM\<close> compares a ground-truth graph with an estimated graph. Its constructor
  enumerates, for every subset size \<open>k\<close>, every conditioning tuple \<open>S\<close> of \<open>k\<close> node names and
  every ordered pair of distinct names outside \<open>S\<close>, asks both graphs whether the pair is
  d-connected given \<open>S\<close>, and aggregates the answers into three numbers.

  Modelling decisions.
  \<^item> Python floats are modelled by exact rationals (\<^typ>\<open>rat\<close>): every intermediate value of
    the constructor is a small integer count or a quotient of such counts, and rounding is
    outside this model. Python raises \<open>ZeroDivisionError\<close> when a float is divided by
    zero; this is a branch of the model, so a value of the model is never NaN or infinite.
  \<^item> Python ints are \<^typ>\<open>int\<close>; the two triple counters, which start at 0 and are only
    incremented, are \<^typ>\<open>nat\<close>.
  \<^item> Exceptions are values: the constructor returns \<open>error + scm\<close>. The \<open>assert\<close>
    statement of line 26 is taken as enabled.
  \<^item> A Python \<open>dict\<close> is an association list in insertion order with distinct keys.
\<close>

subsection \<open>The graph collaborator\<close>

text \<open>
  \<open>causallearn.graph.Graph\<close> is an abstract interface that is not part of the source under
  verification. A graph is therefore a record of exactly the four members the constructor
  uses: the attribute \<open>node_map\<close> (a dict from node objects to indices, here its item list)
  and the methods \<open>get_num_nodes\<close>, \<open>get_node\<close> (lookup by name) and \<open>is_dconnected_to\<close>.
  The methods are taken as total, side-effect free functions.
\<close>

datatype node = Node (get_name: string) (handle: nat)

record Graph =
  node_map :: "(node \<times> nat) list"
  get_num_nodes :: int
  get_node :: "string \<Rightarrow> node"
  is_dconnected_to :: "node \<Rightarrow> node \<Rightarrow> node list \<Rightarrow> bool"

subsection \<open>Errors and the result object\<close>

datatype error = AssertionError | ZeroDivisionError

text \<open>The three private attributes \<open>__SM\<close>, \<open>__CM\<close> and \<open>__SCM\<close> of an \<open>SCM\<close> instance.\<close>

record scm =
  SM :: rat
  CM :: rat
  SCM :: rat

text \<open>The five local variables that the loop over one subset size updates.\<close>

record order_acc =
  SM_k :: rat
  CM_k :: rat
  SCM_k :: rat
  n_C_k_con :: nat
  n_C_k_sep :: nat

subsection \<open>Library functions of Python used by the constructor\<close>

text \<open>
  The dict comprehension \<open>{node.get_name(): node_id for node, node_id in g.node_map.items()}\<close>:
  a key seen again keeps its position and takes the new value, a new key goes to the end.
\<close>

definition name_map :: "(node \<times> nat) list \<Rightarrow> (string \<times> nat) list" where
  "name_map items =
     fold (\<lambda>(node, node_id) d. AList.update (get_name node) node_id d) items []"

text \<open>
  \<open>itertools.combinations(xs, k)\<close>: the \<open>k\<close>-element subsequences of \<open>xs\<close>, chosen by
  position, in lexicographic order of the positions.
\<close>

fun combinations :: "'a list \<Rightarrow> nat \<Rightarrow> 'a list list" where
  "combinations xs 0 = [[]]"
| "combinations [] (Suc k) = []"
| "combinations (x # xs) (Suc k) =
     map ((#) x) (combinations xs k) @ combinations xs (Suc k)"

text \<open>\<open>range(a, b)\<close> on Python ints.\<close>

definition range_py :: "int \<Rightarrow> int \<Rightarrow> int list" where
  "range_py a b = [a..b - 1]"

subsection \<open>The constructor \<open>SCM.__init__\<close>\<close>

text \<open>Lines 56 to 67: the two d-connection queries for one triple and the bookkeeping.\<close>

definition classify ::
  "Graph \<Rightarrow> Graph \<Rightarrow> node \<Rightarrow> node \<Rightarrow> node list \<Rightarrow> node \<Rightarrow> node \<Rightarrow> node list
     \<Rightarrow> order_acc \<Rightarrow> order_acc" where
  "classify truth est truth_x_node truth_y_node truth_S_nodes est_x_node est_y_node est_S_nodes acc =
     (let truth_i_con = is_dconnected_to truth truth_x_node truth_y_node truth_S_nodes;
          est_i_con = is_dconnected_to est est_x_node est_y_node est_S_nodes;
          acc = acc\<lparr>SCM_k := SCM_k acc + (if truth_i_con \<noteq> est_i_con then 1 else 0)\<rparr>
      in if truth_i_con
         then acc\<lparr>CM_k := CM_k acc + (if est_i_con then 0 else 1),
                  n_C_k_con := n_C_k_con acc + 1\<rparr>
         else acc\<lparr>SM_k := SM_k acc + (if est_i_con then 1 else 0),
                  n_C_k_sep := n_C_k_sep acc + 1\<rparr>)"

text \<open>Lines 50 to 67: the loop over \<open>y_name\<close>; \<open>continue\<close> leaves the variables as they are.\<close>

definition loop_y ::
  "Graph \<Rightarrow> Graph \<Rightarrow> (string \<times> nat) list \<Rightarrow> string list \<Rightarrow> node list \<Rightarrow> node list
     \<Rightarrow> string \<Rightarrow> node \<Rightarrow> node \<Rightarrow> order_acc \<Rightarrow> order_acc" where
  "loop_y truth est truth_node_map S_names truth_S_nodes est_S_nodes x_name truth_x_node est_x_node =
     fold (\<lambda>(y_name, _) acc.
             if y_name \<in> set S_names then acc
             else if x_name = y_name then acc
             else let truth_y_node = get_node truth y_name;
                      est_y_node = get_node est y_name
                  in classify truth est truth_x_node truth_y_node truth_S_nodes
                       est_x_node est_y_node est_S_nodes acc)
          truth_node_map"

text \<open>Lines 46 to 67: the loop over \<open>x_name\<close>.\<close>

definition loop_x ::
  "Graph \<Rightarrow> Graph \<Rightarrow> (string \<times> nat) list \<Rightarrow> string list \<Rightarrow> node list \<Rightarrow> node list
     \<Rightarrow> order_acc \<Rightarrow> order_acc" where
  "loop_x truth est truth_node_map S_names truth_S_nodes est_S_nodes =
     fold (\<lambda>(x_name, _) acc.
             if x_name \<in> set S_names then acc
             else let truth_x_node = get_node truth x_name;
                      est_x_node = get_node est x_name
                  in loop_y truth est truth_node_map S_names truth_S_nodes est_S_nodes
                       x_name truth_x_node est_x_node acc)
          truth_node_map"

text \<open>Lines 41 to 67: the loop over the conditioning tuples \<open>S\<close> of size \<open>k\<close>.\<close>

definition loop_S ::
  "Graph \<Rightarrow> Graph \<Rightarrow> (string \<times> nat) list \<Rightarrow> nat \<Rightarrow> order_acc \<Rightarrow> order_acc" where
  "loop_S truth est truth_node_map k =
     fold (\<lambda>S acc.
             let S_names = map fst S;
                 truth_S_nodes = map (\<lambda>t. get_node truth (fst t)) S;
                 est_S_nodes = map (\<lambda>t. get_node est (fst t)) S
             in loop_x truth est truth_node_map S_names truth_S_nodes est_S_nodes acc)
          (combinations truth_node_map k)"

text \<open>Lines 35 to 67: the counters of one subset size, started at zero.\<close>

definition order_k :: "Graph \<Rightarrow> Graph \<Rightarrow> (string \<times> nat) list \<Rightarrow> nat \<Rightarrow> order_acc" where
  "order_k truth est truth_node_map k =
     loop_S truth est truth_node_map k
       \<lparr>SM_k = 0, CM_k = 0, SCM_k = 0, n_C_k_con = 0, n_C_k_sep = 0\<rparr>"

text \<open>
  Lines 34 to 71: the loop over the subset sizes. The three divisions of lines 69 to 71 are
  made in this order, and each raises \<open>ZeroDivisionError\<close> on a zero divisor. Line 70
  divides \<open>SM_k\<close>, as the source does.
\<close>

fun loop_k ::
  "Graph \<Rightarrow> Graph \<Rightarrow> (string \<times> nat) list \<Rightarrow> int list \<Rightarrow> scm \<Rightarrow> error + scm" where
  "loop_k truth est truth_node_map [] self = Inr self"
| "loop_k truth est truth_node_map (k # ks) self =
     (let a = order_k truth est truth_node_map (nat k) in
      if n_C_k_sep a = 0 then Inl ZeroDivisionError
      else let self = self\<lparr>SM := SM self + SM_k a / of_nat (n_C_k_sep a)\<rparr> in
      if n_C_k_con a = 0 then Inl ZeroDivisionError
      else let self = self\<lparr>CM := CM self + SM_k a / of_nat (n_C_k_con a)\<rparr> in
      if n_C_k_sep a + n_C_k_con a = 0 then Inl ZeroDivisionError
      else let self = self\<lparr>SCM := SCM self + SCM_k a / of_nat (n_C_k_sep a + n_C_k_con a)\<rparr> in
      loop_k truth est truth_node_map ks self)"

text \<open>
  The whole constructor: the assertion of line 26, the loop, and the three divisions by
  \<open>N - 1\<close> of lines 73 to 75, the first of which raises when \<open>N = 1\<close>.
\<close>

definition SCM_init :: "Graph \<Rightarrow> Graph \<Rightarrow> error + scm" where
  "SCM_init truth est =
     (let truth_node_map = name_map (node_map truth);
          est_node_map = name_map (node_map est)
      in if set (map fst truth_node_map) \<noteq> set (map fst est_node_map) then Inl AssertionError
         else
           let self = \<lparr>SM = 0, CM = 0, SCM = 0\<rparr>;
               N = get_num_nodes truth
           in case loop_k truth est truth_node_map (range_py 1 (N - 1)) self of
                Inl e \<Rightarrow> Inl e
              | Inr self \<Rightarrow>
                  if N - 1 = 0 then Inl ZeroDivisionError
                  else Inr \<lparr>SM = SM self / of_int (N - 1),
                            CM = CM self / of_int (N - 1),
                            SCM = SCM self / of_int (N - 1)\<rparr>)"

definition get_s_metric :: "scm \<Rightarrow> rat" where
  "get_s_metric self = SM self"

definition get_c_metric :: "scm \<Rightarrow> rat" where
  "get_c_metric self = CM self"

definition get_sc_metric :: "scm \<Rightarrow> rat" where
  "get_sc_metric self = SCM self"

section \<open>Notions used to state the properties\<close>

subsection \<open>Node names and the triples of one subset size\<close>

text \<open>
  The keys of \<open>truth_node_map\<close>, in iteration order. The node-name set of a graph is the set
  of this list.
\<close>

definition node_names :: "Graph \<Rightarrow> string list" where
  "node_names g = map fst (name_map (node_map g))"

text \<open>
  The triples \<open>(X, Y, S)\<close> of subset size \<open>k\<close> over the names \<open>V\<close>: \<open>S\<close> is a set of \<open>k\<close>
  names and \<open>X\<close>, \<open>Y\<close> are two distinct names outside \<open>S\<close>.
\<close>

definition triples :: "string list \<Rightarrow> nat \<Rightarrow> (string \<times> string \<times> string set) set" where
  "triples V k =
     {(x, y, S). S \<subseteq> set V \<and> card S = k \<and> x \<in> set V \<and> y \<in> set V \<and> x \<notin> S \<and> y \<notin> S \<and> x \<noteq> y}"

text \<open>
  What graph \<open>g\<close> reports for a triple: the names are resolved with \<open>get_node\<close> of \<open>g\<close>
  itself, and the conditioning nodes are passed in the order in which the names occur in \<open>V\<close>,
  which is the order \<open>itertools.combinations\<close> keeps.
\<close>

definition reports :: "Graph \<Rightarrow> string list \<Rightarrow> string \<times> string \<times> string set \<Rightarrow> bool" where
  "reports g V = (\<lambda>(x, y, S).
     is_dconnected_to g (get_node g x) (get_node g y)
       (map (get_node g) (filter (\<lambda>n. n \<in> S) V)))"

text \<open>
  The triples of size \<open>k\<close> that \<open>truth\<close> reports d-connected, those it reports
  d-separated, the connections of \<open>truth\<close> that \<open>est\<close> misses, the connections that only
  \<open>est\<close> reports, and the triples on which the two graphs disagree.
\<close>

definition connected_triples :: "Graph \<Rightarrow> nat \<Rightarrow> (string \<times> string \<times> string set) set" where
  "connected_triples truth k =
     {t \<in> triples (node_names truth) k. reports truth (node_names truth) t}"

definition separated_triples :: "Graph \<Rightarrow> nat \<Rightarrow> (string \<times> string \<times> string set) set" where
  "separated_triples truth k =
     {t \<in> triples (node_names truth) k. \<not> reports truth (node_names truth) t}"

definition missed_triples :: "Graph \<Rightarrow> Graph \<Rightarrow> nat \<Rightarrow> (string \<times> string \<times> string set) set" where
  "missed_triples truth est k =
     {t \<in> triples (node_names truth) k.
        reports truth (node_names truth) t \<and> \<not> reports est (node_names truth) t}"

definition spurious_triples :: "Graph \<Rightarrow> Graph \<Rightarrow> nat \<Rightarrow> (string \<times> string \<times> string set) set" where
  "spurious_triples truth est k =
     {t \<in> triples (node_names truth) k.
        \<not> reports truth (node_names truth) t \<and> reports est (node_names truth) t}"

definition disagreeing_triples :: "Graph \<Rightarrow> Graph \<Rightarrow> nat \<Rightarrow> (string \<times> string \<times> string set) set" where
  "disagreeing_triples truth est k =
     {t \<in> triples (node_names truth) k.
        reports truth (node_names truth) t \<noteq> reports est (node_names truth) t}"

text \<open>
  A graph has a degenerate size when, at some subset size of the loop, no triple is
  d-separated or no triple is d-connected in it.
\<close>

definition degenerate_size :: "Graph \<Rightarrow> bool" where
  "degenerate_size truth \<longleftrightarrow>
     (\<exists>k\<in>{1..get_num_nodes truth - 2}.
        card (separated_triples truth (nat k)) = 0 \<or> card (connected_triples truth (nat k)) = 0)"

subsection \<open>The contract of the graph collaborator\<close>

text \<open>
  Modelled from the spec: the class behind \<open>causallearn.graph.Graph\<close> is missing from the
  source, and the interface table of the specification gives its contract. The node count
  equals the number of node names.
\<close>

definition node_count_ok :: "Graph \<Rightarrow> bool" where
  "node_count_ok g \<longleftrightarrow> get_num_nodes g = int (length (node_names g))"

text \<open>
  Modelled from the spec: the same table gives the conditioning argument of the
  d-connection predicate as a set of nodes, so the order and the repetitions of the list
  that carries it do not matter.
\<close>

definition conditioning_as_set :: "Graph \<Rightarrow> bool" where
  "conditioning_as_set g \<longleftrightarrow>
     (\<forall>x y Z Z'. set Z = set Z' \<longrightarrow> is_dconnected_to g x y Z = is_dconnected_to g x y Z')"

subsection \<open>The sequence of loop iterations\<close>

text \<open>
  The ordered pairs that the two inner loops reach for one conditioning tuple, and the
  triples that the three loops reach for one subset size, in the order of the iterations.
\<close>

definition outside_pairs :: "string list \<Rightarrow> string list \<Rightarrow> (string \<times> string) list" where
  "outside_pairs V S_names =
     concat (map (\<lambda>x. map (Pair x) (filter (\<lambda>y. y \<notin> set S_names \<and> x \<noteq> y) V))
                 (filter (\<lambda>x. x \<notin> set S_names) V))"

definition visited :: "string list \<Rightarrow> nat \<Rightarrow> (string list \<times> string \<times> string) list" where
  "visited V k =
     concat (map (\<lambda>S_names. map (Pair S_names) (outside_pairs V S_names)) (combinations V k))"

text \<open>
  The answer of a graph on a visited triple, and the effect of the loop body on the
  counters for a visited triple.
\<close>

definition answers :: "Graph \<Rightarrow> string list \<times> string \<times> string \<Rightarrow> bool" where
  "answers g = (\<lambda>(S_names, x, y).
     is_dconnected_to g (get_node g x) (get_node g y) (map (get_node g) S_names))"

definition tally :: "Graph \<Rightarrow> Graph \<Rightarrow> string list \<times> string \<times> string \<Rightarrow> order_acc \<Rightarrow> order_acc" where
  "tally truth est = (\<lambda>(S_names, x, y) acc.
     classify truth est (get_node truth x) (get_node truth y) (map (get_node truth) S_names)
       (get_node est x) (get_node est y) (map (get_node est) S_names) acc)"

text \<open>A visited triple as a triple with a conditioning set.\<close>

definition of_visit :: "string list \<times> string \<times> string \<Rightarrow> string \<times> string \<times> string set" where
  "of_visit = (\<lambda>(S_names, x, y). (x, y, set S_names))"

subsection \<open>Example graphs\<close>

text \<open>
  Lookup of a node by name in the item list of \<open>node_map\<close>, and a graph built from such a
  list and a d-connection predicate.
\<close>

definition lookup_node :: "(node \<times> nat) list \<Rightarrow> string \<Rightarrow> node" where
  "lookup_node items name =
     (case find (\<lambda>(n, _). get_name n = name) items of
        Some (n, _) \<Rightarrow> n
      | None \<Rightarrow> Node [] 0)"

definition make_graph :: "(node \<times> nat) list \<Rightarrow> (node \<Rightarrow> node \<Rightarrow> node list \<Rightarrow> bool) \<Rightarrow> Graph" where
  "make_graph items dcon =
     \<lparr>node_map = items, get_num_nodes = int (length items),
      get_node = lookup_node items, is_dconnected_to = dcon\<rparr>"

text \<open>
  D-connection relations of small DAGs, exact on the queries of the constructor (two
  distinct nodes outside the conditioning set). In a DAG whose only edge joins \<open>a\<close> and \<open>b\<close>, two nodes
  are d-connected exactly when they are \<open>a\<close> and \<open>b\<close>: the edge is a path without
  intermediate node, which no conditioning set blocks. In a DAG without edges no two nodes
  are d-connected; in a complete DAG any two nodes are adjacent, hence d-connected.
\<close>

definition single_edge :: "string \<Rightarrow> string \<Rightarrow> node \<Rightarrow> node \<Rightarrow> node list \<Rightarrow> bool" where
  "single_edge a b x y Z \<longleftrightarrow>
     (get_name x = a \<and> get_name y = b \<or> get_name x = b \<and> get_name y = a)"

text \<open>
  In the DAG \<open>a \<rightarrow> b \<rightarrow> c\<close> on three nodes, \<open>b\<close> is adjacent to both other nodes,
  and the only path between \<open>a\<close> and \<open>c\<close> runs through the non-collider \<open>b\<close>, so it
  is open exactly when \<open>b\<close> is not in the conditioning set.
\<close>

definition chain_via :: "string \<Rightarrow> node \<Rightarrow> node \<Rightarrow> node list \<Rightarrow> bool" where
  "chain_via b x y Z \<longleftrightarrow>
     (get_name x = b \<or> get_name y = b \<or> filter (\<lambda>z. get_name z = b) Z = [])"

definition no_edges :: "node \<Rightarrow> node \<Rightarrow> node list \<Rightarrow> bool" where
  "no_edges x y Z \<longleftrightarrow> False"

definition all_edges :: "node \<Rightarrow> node \<Rightarrow> node list \<Rightarrow> bool" where
  "all_edges x y Z \<longleftrightarrow> True"

definition nodes_A :: "(node \<times> nat) list" where
  "nodes_A = [(Node ''A'' 0, 0)]"

definition nodes_AB :: "(node \<times> nat) list" where
  "nodes_AB = [(Node ''A'' 0, 0), (Node ''B'' 1, 1)]"

definition nodes_ABC :: "(node \<times> nat) list" where
  "nodes_ABC = [(Node ''A'' 0, 0), (Node ''B'' 1, 1), (Node ''C'' 2, 2)]"

definition nodes_CBA :: "(node \<times> nat) list" where
  "nodes_CBA = [(Node ''C'' 10, 0), (Node ''B'' 11, 1), (Node ''A'' 12, 2)]"

definition nodes_ABD :: "(node \<times> nat) list" where
  "nodes_ABD = [(Node ''A'' 0, 0), (Node ''B'' 1, 1), (Node ''D'' 2, 2)]"

definition nodes_ABCD :: "(node \<times> nat) list" where
  "nodes_ABCD = [(Node ''A'' 0, 0), (Node ''B'' 1, 1), (Node ''C'' 2, 2), (Node ''D'' 3, 3)]"

definition G1 :: Graph where "G1 = make_graph nodes_A no_edges"

definition G2_edge_AB :: Graph where "G2_edge_AB = make_graph nodes_AB (single_edge ''A'' ''B'')"

definition G3_edge_AB :: Graph where "G3_edge_AB = make_graph nodes_ABC (single_edge ''A'' ''B'')"

definition G3_chain :: Graph where "G3_chain = make_graph nodes_CBA (chain_via ''B'')"

definition G3_empty :: Graph where "G3_empty = make_graph nodes_ABC no_edges"

definition G3_complete :: Graph where "G3_complete = make_graph nodes_ABC all_edges"

definition G3_other :: Graph where "G3_other = make_graph nodes_ABD no_edges"

definition G4_edge_AB :: Graph where "G4_edge_AB = make_graph nodes_ABCD (single_edge ''A'' ''B'')"

definition G4_complete :: Graph where "G4_complete = make_graph nodes_ABCD all_edges"

section \<open>Properties of the library functions\<close>

lemma distinct_fold_update:
  "distinct (map fst d) \<Longrightarrow>
   distinct (map fst (fold (\<lambda>(node, node_id) d. AList.update (get_name node) node_id d) items d))"
  by (induction items arbitrary: d) (auto simp: distinct_update)

lemma distinct_node_names: "distinct (node_names g)"
  unfolding node_names_def name_map_def by (rule distinct_fold_update) simp

lemma set_fold_update:
  "fst ` set (fold (\<lambda>(node, node_id) d. AList.update (get_name node) node_id d) items d)
     = fst ` set d \<union> get_name ` fst ` set items"
proof (induction items arbitrary: d)
  case Nil
  then show ?case by simp
next
  case (Cons a items)
  obtain n i where a: "a = (n, i)" by (cases a)
  show ?case unfolding a by (simp add: Cons.IH dom_update)
qed

lemma set_node_names: "set (node_names g) = get_name ` fst ` set (node_map g)"
  unfolding node_names_def name_map_def using set_fold_update[of "node_map g" "[]"] by simp

lemma combinations_map: "combinations (map f xs) k = map (map f) (combinations xs k)"
  by (induction xs k rule: combinations.induct) auto

lemma combinations_length: "c \<in> set (combinations xs k) \<Longrightarrow> length c = k"
  by (induction xs k arbitrary: c rule: combinations.induct) auto

lemma combinations_subset_all: "\<forall>c\<in>set (combinations xs k). set c \<subseteq> set xs"
  by (induction xs k rule: combinations.induct) (auto, blast)

lemma combinations_subset: "c \<in> set (combinations xs k) \<Longrightarrow> set c \<subseteq> set xs"
  using combinations_subset_all[of xs k] by blast

lemma combinations_distinct_elem:
  "distinct xs \<Longrightarrow> c \<in> set (combinations xs k) \<Longrightarrow> distinct c"
proof (induction xs k arbitrary: c rule: combinations.induct)
  case (3 x xs k)
  from "3.prems"(2) consider c' where "c = x # c'" "c' \<in> set (combinations xs k)"
    | "c \<in> set (combinations xs (Suc k))" by auto
  then show ?case
  proof cases
    case 1
    from combinations_subset[OF 1(2)] "3.prems"(1) have "x \<notin> set c'" by auto
    with "3.IH"(1)[OF _ 1(2)] "3.prems"(1) 1(1) show ?thesis by simp
  next
    case 2
    from "3.IH"(2)[OF _ 2] "3.prems"(1) show ?thesis by simp
  qed
qed simp_all

lemma distinct_combinations: "distinct xs \<Longrightarrow> distinct (combinations xs k)"
proof (induction xs k rule: combinations.induct)
  case (3 x xs k)
  have a: "distinct (map ((#) x) (combinations xs k))"
    using 3 by (simp add: distinct_map)
  have b: "distinct (combinations xs (Suc k))" using 3 by simp
  have c: "set (map ((#) x) (combinations xs k)) \<inter> set (combinations xs (Suc k)) = {}"
  proof (rule ccontr)
    assume "\<not> ?thesis"
    then obtain c' where "x # c' \<in> set (combinations xs (Suc k))" by auto
    from combinations_subset[OF this] "3.prems" show False by simp
  qed
  from a b c show ?case by simp
qed simp_all

lemma combinations_filter:
  "distinct xs \<Longrightarrow> c \<in> set (combinations xs k) \<Longrightarrow> filter (\<lambda>n. n \<in> set c) xs = c"
proof (induction xs k arbitrary: c rule: combinations.induct)
  case (1 xs)
  then show ?case by simp
next
  case (2 k)
  then show ?case by simp
next
  case (3 x xs k)
  from "3.prems" have dx: "x \<notin> set xs" and d: "distinct xs" by auto
  from "3.prems"(2) consider c' where "c = x # c'" "c' \<in> set (combinations xs k)"
    | "c \<in> set (combinations xs (Suc k))" by auto
  then show ?case
  proof cases
    case 1
    have "filter (\<lambda>n. n \<in> set c) xs = filter (\<lambda>n. n \<in> set c') xs"
      using dx 1(1) by (intro filter_cong) auto
    with "3.IH"(1)[OF d 1(2)] 1(1) show ?thesis by simp
  next
    case 2
    with combinations_subset[OF 2] dx have "x \<notin> set c" by auto
    with "3.IH"(2)[OF d 2] show ?thesis by simp
  qed
qed

lemma filter_in_combinations:
  "distinct xs \<Longrightarrow> S \<subseteq> set xs \<Longrightarrow> card S = k \<Longrightarrow> filter (\<lambda>n. n \<in> S) xs \<in> set (combinations xs k)"
proof (induction xs k arbitrary: S rule: combinations.induct)
  case (1 xs)
  then have "S = {}" by (auto dest: finite_subset[OF _ finite_set])
  then show ?case by simp
next
  case (2 k)
  then show ?case by simp
next
  case (3 x xs k)
  from "3.prems" have dx: "x \<notin> set xs" and d: "distinct xs" by auto
  have fin: "finite S" using "3.prems"(2) by (rule finite_subset) simp
  show ?case
  proof (cases "x \<in> S")
    case True
    have sub: "S - {x} \<subseteq> set xs" using "3.prems"(2) by auto
    have crd: "card (S - {x}) = k" using "3.prems"(3) True fin by simp
    have "filter (\<lambda>n. n \<in> S) xs = filter (\<lambda>n. n \<in> S - {x}) xs"
      using dx by (intro filter_cong) auto
    with "3.IH"(1)[OF d sub crd] True show ?thesis by simp
  next
    case False
    then have sub: "S \<subseteq> set xs" using "3.prems"(2) by auto
    from "3.IH"(2)[OF d sub "3.prems"(3)] False show ?thesis by simp
  qed
qed

lemma length_combinations: "length (combinations xs k) = length xs choose k"
  by (induction xs k rule: combinations.induct) simp_all

section \<open>The loops as one fold over the visited triples\<close>

lemma fold_skip:
  "fold (\<lambda>(a, _) acc. if P a then acc else g a acc) items acc
     = fold g (filter (\<lambda>a. \<not> P a) (map fst items)) acc"
  by (induction items arbitrary: acc) (auto split: prod.splits)

lemma fold_skip2:
  "fold (\<lambda>(a, _) acc. if P a then acc else if Q a then acc else g a acc) items acc
     = fold g (filter (\<lambda>a. \<not> P a \<and> \<not> Q a) (map fst items)) acc"
  by (induction items arbitrary: acc) (auto split: prod.splits)

lemma fold_concat_map: "fold f (concat (map g xs)) acc = fold (\<lambda>x. fold f (g x)) xs acc"
  by (induction xs arbitrary: acc) auto

lemma loop_y_fold:
  "loop_y truth est items S_names (map (get_node truth) S_names) (map (get_node est) S_names)
       x (get_node truth x) (get_node est x) acc
     = fold (tally truth est)
         (map (\<lambda>y. (S_names, x, y)) (filter (\<lambda>y. y \<notin> set S_names \<and> x \<noteq> y) (map fst items))) acc"
  unfolding loop_y_def Let_def
  by (simp add: fold_skip2[where P="\<lambda>y. y \<in> set S_names" and Q="\<lambda>y. x = y"] fold_map tally_def comp_def)

lemma loop_x_fold:
  "loop_x truth est items S_names (map (get_node truth) S_names) (map (get_node est) S_names) acc
     = fold (tally truth est) (map (Pair S_names) (outside_pairs (map fst items) S_names)) acc"
proof -
  have "loop_x truth est items S_names (map (get_node truth) S_names) (map (get_node est) S_names) acc
      = fold (\<lambda>x. fold (tally truth est)
                (map (\<lambda>y. (S_names, x, y))
                   (filter (\<lambda>y. y \<notin> set S_names \<and> x \<noteq> y) (map fst items))))
          (filter (\<lambda>x. x \<notin> set S_names) (map fst items)) acc"
    unfolding loop_x_def Let_def loop_y_fold
    by (rule fold_skip[where P="\<lambda>x. x \<in> set S_names"])
  also have "\<dots> = fold (tally truth est)
        (concat (map (\<lambda>x. map (\<lambda>y. (S_names, x, y))
                   (filter (\<lambda>y. y \<notin> set S_names \<and> x \<noteq> y) (map fst items)))
           (filter (\<lambda>x. x \<notin> set S_names) (map fst items)))) acc"
    by (simp add: fold_concat_map)
  also have "concat (map (\<lambda>x. map (\<lambda>y. (S_names, x, y))
                   (filter (\<lambda>y. y \<notin> set S_names \<and> x \<noteq> y) (map fst items)))
           (filter (\<lambda>x. x \<notin> set S_names) (map fst items)))
      = map (Pair S_names) (outside_pairs (map fst items) S_names)"
    unfolding outside_pairs_def by (simp add: map_concat comp_def)
  finally show ?thesis .
qed

lemma loop_S_fold:
  "loop_S truth est items k acc = fold (tally truth est) (visited (map fst items) k) acc"
proof -
  have step: "loop_x truth est items (map fst S) (map (\<lambda>t. get_node truth (fst t)) S)
                  (map (\<lambda>t. get_node est (fst t)) S)
      = fold (tally truth est) (map (Pair (map fst S)) (outside_pairs (map fst items) (map fst S)))"
    for S
  proof (rule ext)
    fix acc
    show "loop_x truth est items (map fst S) (map (\<lambda>t. get_node truth (fst t)) S)
                  (map (\<lambda>t. get_node est (fst t)) S) acc
      = fold (tally truth est)
          (map (Pair (map fst S)) (outside_pairs (map fst items) (map fst S))) acc"
      using loop_x_fold[of truth est items "map fst S" acc] by (simp add: comp_def)
  qed
  have "loop_S truth est items k acc
      = fold (\<lambda>S. fold (tally truth est)
                (map (Pair (map fst S)) (outside_pairs (map fst items) (map fst S))))
          (combinations items k) acc"
    unfolding loop_S_def Let_def step ..
  also have "\<dots> = fold (\<lambda>S_names. fold (tally truth est)
                (map (Pair S_names) (outside_pairs (map fst items) S_names)))
          (combinations (map fst items) k) acc"
    by (simp add: combinations_map fold_map comp_def)
  also have "\<dots> = fold (tally truth est) (visited (map fst items) k) acc"
    unfolding visited_def by (simp add: fold_concat_map)
  finally show ?thesis .
qed

lemma fold_tally_n_con:
  "n_C_k_con (fold (tally truth est) ts acc) = n_C_k_con acc + length (filter (answers truth) ts)"
  by (induction ts arbitrary: acc)
     (auto simp: tally_def classify_def answers_def Let_def split: prod.splits)

lemma fold_tally_n_sep:
  "n_C_k_sep (fold (tally truth est) ts acc)
     = n_C_k_sep acc + length (filter (\<lambda>t. \<not> answers truth t) ts)"
  by (induction ts arbitrary: acc)
     (auto simp: tally_def classify_def answers_def Let_def split: prod.splits)

lemma fold_tally_SM:
  "SM_k (fold (tally truth est) ts acc)
     = SM_k acc + of_nat (length (filter (\<lambda>t. \<not> answers truth t \<and> answers est t) ts))"
  by (induction ts arbitrary: acc)
     (auto simp: tally_def classify_def answers_def Let_def split: prod.splits)

lemma fold_tally_CM:
  "CM_k (fold (tally truth est) ts acc)
     = CM_k acc + of_nat (length (filter (\<lambda>t. answers truth t \<and> \<not> answers est t) ts))"
  by (induction ts arbitrary: acc)
     (auto simp: tally_def classify_def answers_def Let_def split: prod.splits)

lemma fold_tally_SCM:
  "SCM_k (fold (tally truth est) ts acc)
     = SCM_k acc + of_nat (length (filter (\<lambda>t. answers truth t \<noteq> answers est t) ts))"
  by (induction ts arbitrary: acc)
     (auto simp: tally_def classify_def answers_def Let_def split: prod.splits)

section \<open>The visited triples are exactly the triples, each once\<close>

lemma set_outside_pairs:
  "set (outside_pairs V S_names)
     = {(x, y). x \<in> set V \<and> y \<in> set V \<and> x \<notin> set S_names \<and> y \<notin> set S_names \<and> x \<noteq> y}"
  unfolding outside_pairs_def by auto

lemma set_visited:
  "set (visited V k)
     = {(S_names, x, y). S_names \<in> set (combinations V k) \<and> x \<in> set V \<and> y \<in> set V
          \<and> x \<notin> set S_names \<and> y \<notin> set S_names \<and> x \<noteq> y}"
  unfolding visited_def by (auto simp: set_outside_pairs)

lemma distinct_concat_map:
  "distinct xs \<Longrightarrow> (\<And>x. x \<in> set xs \<Longrightarrow> distinct (f x))
     \<Longrightarrow> (\<And>x y. x \<in> set xs \<Longrightarrow> y \<in> set xs \<Longrightarrow> x \<noteq> y \<Longrightarrow> set (f x) \<inter> set (f y) = {})
     \<Longrightarrow> distinct (concat (map f xs))"
proof (induction xs)
  case Nil
  then show ?case by simp
next
  case (Cons a xs)
  have "distinct (concat (map f xs))" using Cons by simp
  moreover have "distinct (f a)" using Cons.prems(2) by simp
  moreover have "set (f a) \<inter> set (f y) = {}" if "y \<in> set xs" for y
  proof -
    from that Cons.prems(1) have "a \<noteq> y" by auto
    with Cons.prems(3)[of a y] that show ?thesis by simp
  qed
  ultimately show ?case by auto
qed

lemma distinct_outside_pairs: "distinct V \<Longrightarrow> distinct (outside_pairs V S_names)"
  unfolding outside_pairs_def
  by (rule distinct_concat_map) (auto simp: distinct_map inj_on_def)

lemma distinct_visited: "distinct V \<Longrightarrow> distinct (visited V k)"
  unfolding visited_def
  by (rule distinct_concat_map)
     (auto simp: distinct_combinations distinct_outside_pairs distinct_map inj_on_def)

lemma inj_on_of_visit: "distinct V \<Longrightarrow> inj_on of_visit (set (visited V k))"
proof (rule inj_onI)
  fix a b
  assume d: "distinct V" and a: "a \<in> set (visited V k)" and b: "b \<in> set (visited V k)"
    and eq: "of_visit a = of_visit b"
  obtain Sa xa ya where A: "a = (Sa, xa, ya)" by (cases a)
  obtain Sb xb yb where B: "b = (Sb, xb, yb)" by (cases b)
  from a have ca: "Sa \<in> set (combinations V k)" unfolding A set_visited by simp
  from b have cb: "Sb \<in> set (combinations V k)" unfolding B set_visited by simp
  from eq have e: "set Sa = set Sb" "xa = xb" "ya = yb"
    unfolding A B of_visit_def by simp_all
  have "Sa = filter (\<lambda>n. n \<in> set Sa) V" using combinations_filter[OF d ca] by simp
  also have "\<dots> = Sb" unfolding e(1) using combinations_filter[OF d cb] by simp
  finally show "a = b" unfolding A B using e by simp
qed

lemma of_visit_image: "distinct V \<Longrightarrow> of_visit ` set (visited V k) = triples V k"
proof (intro set_eqI iffI)
  fix t
  assume d: "distinct V" and "t \<in> of_visit ` set (visited V k)"
  then obtain S_names x y where
    t: "t = (x, y, set S_names)" and S: "S_names \<in> set (combinations V k)"
    and xy: "x \<in> set V" "y \<in> set V" "x \<notin> set S_names" "y \<notin> set S_names" "x \<noteq> y"
    unfolding set_visited of_visit_def by auto
  have "distinct S_names" using combinations_distinct_elem[OF d S] .
  then have "card (set S_names) = k"
    using combinations_length[OF S] by (simp add: distinct_card)
  with combinations_subset[OF S] xy show "t \<in> triples V k"
    unfolding t triples_def by simp
next
  fix t
  assume d: "distinct V" and "t \<in> triples V k"
  then obtain x y S where t: "t = (x, y, S)" and S: "S \<subseteq> set V" "card S = k"
    and xy: "x \<in> set V" "y \<in> set V" "x \<notin> S" "y \<notin> S" "x \<noteq> y"
    unfolding triples_def by auto
  let ?c = "filter (\<lambda>n. n \<in> S) V"
  have c: "?c \<in> set (combinations V k)" using filter_in_combinations[OF d S] .
  have sc: "set ?c = S" using S by auto
  have "(?c, x, y) \<in> set (visited V k)"
    unfolding set_visited using c xy sc by simp
  moreover have "of_visit (?c, x, y) = t" unfolding of_visit_def t using sc by simp
  ultimately show "t \<in> of_visit ` set (visited V k)" by force
qed

lemma answers_reports:
  "distinct V \<Longrightarrow> v \<in> set (visited V k) \<Longrightarrow> answers g v = reports g V (of_visit v)"
proof -
  assume d: "distinct V" and v: "v \<in> set (visited V k)"
  obtain S_names x y where V: "v = (S_names, x, y)" by (cases v)
  from v have "S_names \<in> set (combinations V k)" unfolding V set_visited by auto
  from combinations_filter[OF d this]
  show ?thesis unfolding V answers_def reports_def of_visit_def by simp
qed

lemma count_visited:
  assumes d: "distinct V"
    and PQ: "\<And>v. v \<in> set (visited V k) \<Longrightarrow> P v = Q (of_visit v)"
  shows "length (filter P (visited V k)) = card {t \<in> triples V k. Q t}"
proof -
  have "length (filter P (visited V k)) = card {v \<in> set (visited V k). P v}"
    using distinct_visited[OF d, of k] by (simp add: distinct_length_filter Int_def conj_commute)
  also have "\<dots> = card (of_visit ` {v \<in> set (visited V k). P v})"
    by (rule card_image[symmetric]) (rule inj_on_subset[OF inj_on_of_visit[OF d, of k]], auto)
  also have "of_visit ` {v \<in> set (visited V k). P v} = {t \<in> triples V k. Q t}"
  proof (intro set_eqI iffI)
    fix t
    assume "t \<in> of_visit ` {v \<in> set (visited V k). P v}"
    then obtain v where v: "v \<in> set (visited V k)" "P v" "t = of_visit v" by auto
    from v(1,3) have "t \<in> triples V k" using of_visit_image[OF d, of k] by blast
    with v PQ[OF v(1)] show "t \<in> {t \<in> triples V k. Q t}" by simp
  next
    fix t
    assume "t \<in> {t \<in> triples V k. Q t}"
    then have t: "t \<in> of_visit ` set (visited V k)" "Q t"
      using of_visit_image[OF d, of k] by simp_all
    then obtain v where v: "v \<in> set (visited V k)" "t = of_visit v" by auto
    with PQ[OF v(1)] t(2) show "t \<in> of_visit ` {v \<in> set (visited V k). P v}" by simp
  qed
  finally show ?thesis .
qed

section \<open>The counters of one subset size\<close>

lemma order_k_visited:
  "order_k truth est (name_map (node_map truth)) k
     = fold (tally truth est) (visited (node_names truth) k)
         \<lparr>SM_k = 0, CM_k = 0, SCM_k = 0, n_C_k_con = 0, n_C_k_sep = 0\<rparr>"
  unfolding order_k_def node_names_def by (rule loop_S_fold)

lemma order_k_n_con:
  "n_C_k_con (order_k truth est (name_map (node_map truth)) k) = card (connected_triples truth k)"
  unfolding order_k_visited fold_tally_n_con connected_triples_def
  using count_visited[OF distinct_node_names, of truth k "answers truth" "reports truth (node_names truth)"]
        answers_reports[OF distinct_node_names, of _ truth k truth]
  by simp

lemma order_k_n_sep:
  "n_C_k_sep (order_k truth est (name_map (node_map truth)) k) = card (separated_triples truth k)"
  unfolding order_k_visited fold_tally_n_sep separated_triples_def
  using count_visited[OF distinct_node_names, of truth k "\<lambda>t. \<not> answers truth t"
          "\<lambda>t. \<not> reports truth (node_names truth) t"]
        answers_reports[OF distinct_node_names, of _ truth k truth]
  by simp

lemma order_k_SM:
  "SM_k (order_k truth est (name_map (node_map truth)) k) = of_nat (card (spurious_triples truth est k))"
  unfolding order_k_visited fold_tally_SM spurious_triples_def
  using count_visited[OF distinct_node_names, of truth k "\<lambda>t. \<not> answers truth t \<and> answers est t"
          "\<lambda>t. \<not> reports truth (node_names truth) t \<and> reports est (node_names truth) t"]
        answers_reports[OF distinct_node_names, of _ truth k truth]
        answers_reports[OF distinct_node_names, of _ truth k est]
  by simp

lemma order_k_CM:
  "CM_k (order_k truth est (name_map (node_map truth)) k) = of_nat (card (missed_triples truth est k))"
  unfolding order_k_visited fold_tally_CM missed_triples_def
  using count_visited[OF distinct_node_names, of truth k "\<lambda>t. answers truth t \<and> \<not> answers est t"
          "\<lambda>t. reports truth (node_names truth) t \<and> \<not> reports est (node_names truth) t"]
        answers_reports[OF distinct_node_names, of _ truth k truth]
        answers_reports[OF distinct_node_names, of _ truth k est]
  by simp

lemma order_k_SCM:
  "SCM_k (order_k truth est (name_map (node_map truth)) k) = of_nat (card (disagreeing_triples truth est k))"
  unfolding order_k_visited fold_tally_SCM disagreeing_triples_def
  using count_visited[OF distinct_node_names, of truth k "\<lambda>t. answers truth t \<noteq> answers est t"
          "\<lambda>t. reports truth (node_names truth) t \<noteq> reports est (node_names truth) t"]
        answers_reports[OF distinct_node_names, of _ truth k truth]
        answers_reports[OF distinct_node_names, of _ truth k est]
  by simp

lemma sum_list_const_on: "(\<And>x. x \<in> set xs \<Longrightarrow> f x = (c::nat)) \<Longrightarrow> sum_list (map f xs) = length xs * c"
  by (induction xs) auto

lemma length_filter_outside:
  assumes "distinct V" "distinct S_names" "set S_names \<subseteq> set V"
  shows "length (filter (\<lambda>x. x \<notin> set S_names) V) = length V - length S_names"
proof -
  have "length (filter (\<lambda>x. x \<notin> set S_names) V) = card (set V - set S_names)"
    using assms(1) by (simp add: distinct_length_filter Diff_eq Int_commute Compl_eq)
  also have "\<dots> = card (set V) - card (set S_names)"
    using assms(3) by (simp add: card_Diff_subset)
  finally show ?thesis using assms(1,2) by (simp add: distinct_card)
qed

lemma length_filter_outside_other:
  assumes "distinct V" "distinct S_names" "set S_names \<subseteq> set V" "x \<in> set V" "x \<notin> set S_names"
  shows "length (filter (\<lambda>y. y \<notin> set S_names \<and> x \<noteq> y) V) = length V - length S_names - 1"
proof -
  have "{y. y \<notin> set S_names \<and> x \<noteq> y} \<inter> set V = set V - set (x # S_names)" by auto
  then have "length (filter (\<lambda>y. y \<notin> set S_names \<and> x \<noteq> y) V) = card (set V - set (x # S_names))"
    using assms(1) by (simp add: distinct_length_filter)
  also have "\<dots> = card (set V) - card (set (x # S_names))"
    using assms(3,4) by (intro card_Diff_subset) auto
  also have "card (set (x # S_names)) = Suc (length S_names)"
    using assms(2,5) distinct_card[of "x # S_names"] by simp
  finally show ?thesis using assms(1) by (simp add: distinct_card)
qed

lemma length_outside_pairs:
  assumes "distinct V" "distinct S_names" "set S_names \<subseteq> set V"
  shows "length (outside_pairs V S_names)
           = (length V - length S_names) * (length V - length S_names - 1)"
proof -
  have "length (outside_pairs V S_names)
      = sum_list (map (\<lambda>x. length (filter (\<lambda>y. y \<notin> set S_names \<and> x \<noteq> y) V))
                      (filter (\<lambda>x. x \<notin> set S_names) V))"
    unfolding outside_pairs_def by (simp add: length_concat comp_def)
  also have "\<dots> = length (filter (\<lambda>x. x \<notin> set S_names) V) * (length V - length S_names - 1)"
    by (rule sum_list_const_on) (simp add: length_filter_outside_other[OF assms])
  finally show ?thesis by (simp add: length_filter_outside[OF assms])
qed

lemma length_visited:
  assumes "distinct V"
  shows "length (visited V k)
           = (length V choose k) * ((length V - k) * (length V - k - 1))"
proof -
  have "length (visited V k)
      = sum_list (map (\<lambda>S_names. length (outside_pairs V S_names)) (combinations V k))"
    unfolding visited_def by (simp add: length_concat comp_def)
  also have "\<dots> = length (combinations V k) * ((length V - k) * (length V - k - 1))"
  proof (rule sum_list_const_on)
    fix S_names
    assume S: "S_names \<in> set (combinations V k)"
    from length_outside_pairs[OF assms combinations_distinct_elem[OF assms S] combinations_subset[OF S]]
    show "length (outside_pairs V S_names) = (length V - k) * (length V - k - 1)"
      by (simp add: combinations_length[OF S])
  qed
  finally show ?thesis by (simp add: length_combinations)
qed

lemma order_k_total:
  "n_C_k_con (order_k truth est (name_map (node_map truth)) k)
     + n_C_k_sep (order_k truth est (name_map (node_map truth)) k)
   = length (visited (node_names truth) k)"
  unfolding order_k_visited fold_tally_n_con fold_tally_n_sep
  by (simp add: sum_length_filter_compl)

lemma bij_betw_of_visit:
  "distinct V \<Longrightarrow> bij_betw of_visit (set (visited V k)) (triples V k)"
  unfolding bij_betw_def by (simp add: inj_on_of_visit of_visit_image)

section \<open>The loop over the sizes and the constructor\<close>

lemma loop_k_error: "loop_k truth est items ks self = Inl e \<Longrightarrow> e = ZeroDivisionError"
  by (induction ks arbitrary: self) (auto simp: Let_def split: if_splits)

lemma loop_k_Inr_iff:
  "(\<exists>self'. loop_k truth est items ks self = Inr self') \<longleftrightarrow>
   (\<forall>k\<in>set ks. n_C_k_sep (order_k truth est items (nat k)) \<noteq> 0
              \<and> n_C_k_con (order_k truth est items (nat k)) \<noteq> 0)"
  by (induction ks arbitrary: self) (auto simp: Let_def)

lemma loop_k_SM:
  "loop_k truth est items ks self = Inr self' \<Longrightarrow>
   SM self' = SM self + (\<Sum>k\<leftarrow>ks. SM_k (order_k truth est items (nat k))
                                 / of_nat (n_C_k_sep (order_k truth est items (nat k))))"
  by (induction ks arbitrary: self) (auto simp: Let_def split: if_splits)

lemma loop_k_CM:
  "loop_k truth est items ks self = Inr self' \<Longrightarrow>
   CM self' = CM self + (\<Sum>k\<leftarrow>ks. SM_k (order_k truth est items (nat k))
                                 / of_nat (n_C_k_con (order_k truth est items (nat k))))"
  by (induction ks arbitrary: self) (auto simp: Let_def split: if_splits)

lemma loop_k_SCM:
  "loop_k truth est items ks self = Inr self' \<Longrightarrow>
   SCM self' = SCM self + (\<Sum>k\<leftarrow>ks. SCM_k (order_k truth est items (nat k))
                                 / of_nat (n_C_k_sep (order_k truth est items (nat k))
                                           + n_C_k_con (order_k truth est items (nat k))))"
  by (induction ks arbitrary: self) (auto simp: Let_def split: if_splits)

lemma sum_list_range_py: "(\<Sum>k\<leftarrow>range_py 1 (N - 1). f k) = (\<Sum>k = 1..N - 2. f k)"
proof -
  have "(N - 1) - 1 = N - 2" by simp
  then show ?thesis unfolding range_py_def
    by (simp add: sum_list_distinct_conv_sum_set)
qed

lemma SCM_init_mismatch:
  "set (node_names truth) \<noteq> set (node_names est) \<Longrightarrow> SCM_init truth est = Inl AssertionError"
  unfolding SCM_init_def node_names_def by (simp add: Let_def)

lemma SCM_init_Inr:
  assumes "SCM_init truth est = Inr self"
  shows "set (node_names truth) = set (node_names est)"
    and "get_num_nodes truth \<noteq> 1"
    and "\<exists>self'. loop_k truth est (name_map (node_map truth))
                  (range_py 1 (get_num_nodes truth - 1)) \<lparr>SM = 0, CM = 0, SCM = 0\<rparr> = Inr self'
            \<and> self = \<lparr>SM = SM self' / of_int (get_num_nodes truth - 1),
                       CM = CM self' / of_int (get_num_nodes truth - 1),
                       SCM = SCM self' / of_int (get_num_nodes truth - 1)\<rparr>"
  using assms unfolding SCM_init_def node_names_def
  by (auto simp: Let_def split: if_splits sum.splits)

lemma SCM_init_values:
  assumes "SCM_init truth est = Inr self"
  shows "SM self = (\<Sum>k = 1..get_num_nodes truth - 2.
                      of_nat (card (spurious_triples truth est (nat k)))
                        / of_nat (card (separated_triples truth (nat k))))
                   / of_int (get_num_nodes truth - 1)"
    and "CM self = (\<Sum>k = 1..get_num_nodes truth - 2.
                      of_nat (card (spurious_triples truth est (nat k)))
                        / of_nat (card (connected_triples truth (nat k))))
                   / of_int (get_num_nodes truth - 1)"
    and "SCM self = (\<Sum>k = 1..get_num_nodes truth - 2.
                      of_nat (card (disagreeing_triples truth est (nat k)))
                        / of_nat (card (separated_triples truth (nat k)) + card (connected_triples truth (nat k))))
                   / of_int (get_num_nodes truth - 1)"
proof -
  from SCM_init_Inr(3)[OF assms] obtain self' where
    l: "loop_k truth est (name_map (node_map truth))
          (range_py 1 (get_num_nodes truth - 1)) \<lparr>SM = 0, CM = 0, SCM = 0\<rparr> = Inr self'"
    and s: "self = \<lparr>SM = SM self' / of_int (get_num_nodes truth - 1),
                     CM = CM self' / of_int (get_num_nodes truth - 1),
                     SCM = SCM self' / of_int (get_num_nodes truth - 1)\<rparr>"
    by blast
  show "SM self = (\<Sum>k = 1..get_num_nodes truth - 2.
                      of_nat (card (spurious_triples truth est (nat k)))
                        / of_nat (card (separated_triples truth (nat k))))
                   / of_int (get_num_nodes truth - 1)"
    unfolding s using loop_k_SM[OF l]
    by (simp add: order_k_SM order_k_n_sep sum_list_range_py)
  show "CM self = (\<Sum>k = 1..get_num_nodes truth - 2.
                      of_nat (card (spurious_triples truth est (nat k)))
                        / of_nat (card (connected_triples truth (nat k))))
                   / of_int (get_num_nodes truth - 1)"
    unfolding s using loop_k_CM[OF l]
    by (simp add: order_k_SM order_k_n_con sum_list_range_py)
  show "SCM self = (\<Sum>k = 1..get_num_nodes truth - 2.
                      of_nat (card (disagreeing_triples truth est (nat k)))
                        / of_nat (card (separated_triples truth (nat k)) + card (connected_triples truth (nat k))))
                   / of_int (get_num_nodes truth - 1)"
    unfolding s using loop_k_SCM[OF l]
    by (simp add: order_k_SCM order_k_n_sep order_k_n_con sum_list_range_py)
qed

lemma SCM_init_succeeds:
  assumes "set (node_names truth) = set (node_names est)"
  shows "(\<exists>self. SCM_init truth est = Inr self) \<longleftrightarrow> get_num_nodes truth \<noteq> 1 \<and> \<not> degenerate_size truth"
proof -
  let ?items = "name_map (node_map truth)"
  let ?ks = "range_py 1 (get_num_nodes truth - 1)"
  have ks: "set ?ks = {1..get_num_nodes truth - 2}"
    unfolding range_py_def by auto
  have deg: "(\<exists>self'. loop_k truth est ?items ?ks \<lparr>SM = 0, CM = 0, SCM = 0\<rparr> = Inr self')
               \<longleftrightarrow> \<not> degenerate_size truth"
    unfolding loop_k_Inr_iff ks degenerate_size_def order_k_n_sep order_k_n_con by simp
  show ?thesis
  proof
    assume "\<exists>self. SCM_init truth est = Inr self"
    then obtain self where s: "SCM_init truth est = Inr self" ..
    from SCM_init_Inr(2,3)[OF s] deg show "get_num_nodes truth \<noteq> 1 \<and> \<not> degenerate_size truth"
      by blast
  next
    assume a: "get_num_nodes truth \<noteq> 1 \<and> \<not> degenerate_size truth"
    with deg obtain self' where
      "loop_k truth est ?items ?ks \<lparr>SM = 0, CM = 0, SCM = 0\<rparr> = Inr self'" by blast
    with a assms show "\<exists>self. SCM_init truth est = Inr self"
      unfolding SCM_init_def node_names_def by (simp add: Let_def)
  qed
qed

lemma SCM_init_error:
  "SCM_init truth est = Inl e \<Longrightarrow>
     (if set (node_names truth) = set (node_names est) then e = ZeroDivisionError
      else e = AssertionError)"
  unfolding SCM_init_def node_names_def
  by (auto simp: Let_def split: if_splits sum.splits dest: loop_k_error)

lemma finite_triples: "finite (triples V k)"
proof -
  have "triples V k \<subseteq> set V \<times> set V \<times> Pow (set V)"
    unfolding triples_def by auto
  then show ?thesis by (rule finite_subset) simp
qed

lemma triples_set_cong: "set V = set V' \<Longrightarrow> triples V k = triples V' k"
  unfolding triples_def by simp

lemma reports_set_cong:
  assumes "conditioning_as_set g" "set V = set V'"
  shows "reports g V t = reports g V' t"
proof -
  obtain x y S where t: "t = (x, y, S)" by (cases t)
  have eq: "set (map (get_node g) (filter (\<lambda>n. n \<in> S) V))
      = set (map (get_node g) (filter (\<lambda>n. n \<in> S) V'))"
    using assms(2) by simp
  note c = assms(1)[unfolded conditioning_as_set_def, rule_format]
  show ?thesis
    unfolding t reports_def
    by (simp only: prod.case c[OF eq, of "get_node g x" "get_node g y"])
qed

lemma disagreeing_swap:
  assumes "conditioning_as_set truth" "conditioning_as_set est"
    and "set (node_names truth) = set (node_names est)"
  shows "disagreeing_triples truth est k = disagreeing_triples est truth k"
  unfolding disagreeing_triples_def
  using triples_set_cong[OF assms(3), of k]
        reports_set_cong[OF assms(1,3)] reports_set_cong[OF assms(2,3)]
  by auto

lemma card_separated_connected:
  "card (separated_triples g k) + card (connected_triples g k) = card (triples (node_names g) k)"
proof -
  have "separated_triples g k \<union> connected_triples g k = triples (node_names g) k"
    and "separated_triples g k \<inter> connected_triples g k = {}"
    unfolding separated_triples_def connected_triples_def by auto
  moreover have "finite (separated_triples g k)" "finite (connected_triples g k)"
    unfolding separated_triples_def connected_triples_def using finite_triples by simp_all
  ultimately show ?thesis using card_Un_disjoint[of "separated_triples g k" "connected_triples g k"]
    by simp
qed

lemma node_count_eq:
  assumes "node_count_ok truth" "node_count_ok est"
    and "set (node_names truth) = set (node_names est)"
  shows "get_num_nodes truth = get_num_nodes est"
proof -
  have "length (node_names truth) = card (set (node_names truth))"
    using distinct_node_names by (simp add: distinct_card)
  also have "\<dots> = length (node_names est)"
    unfolding assms(3) using distinct_node_names by (simp add: distinct_card)
  finally show ?thesis using assms(1,2) unfolding node_count_ok_def by simp
qed

lemma ratio_sum_bounds:
  fixes a b :: "int \<Rightarrow> nat"
  assumes le: "\<And>k. a k \<le> b k" and N: "N \<noteq> 1"
  shows "0 \<le> (\<Sum>k = 1..N - 2. (of_nat (a k) :: rat) / of_nat (b k)) / of_int (N - 1)"
    and "(\<Sum>k = 1..N - 2. (of_nat (a k) :: rat) / of_nat (b k)) / of_int (N - 1) \<le> 1"
proof -
  let ?s = "\<Sum>k = 1..N - 2. (of_nat (a k) :: rat) / of_nat (b k)"
  have t0: "0 \<le> (of_nat (a k) :: rat) / of_nat (b k)" for k by simp
  have t1: "(of_nat (a k) :: rat) / of_nat (b k) \<le> 1" for k
    using le[of k] by (cases "b k = 0") (simp_all add: divide_le_eq_1)
  have s0: "0 \<le> ?s" by (rule sum_nonneg) (rule t0)
  have "?s \<le> (\<Sum>k = 1..N - 2. 1)" by (rule sum_mono) (rule t1)
  then have s1: "?s \<le> of_nat (card {1..N - 2})" by simp
  show "0 \<le> ?s / of_int (N - 1)"
  proof (cases "2 \<le> N")
    case True
    with s0 show ?thesis by simp
  next
    case False
    then have "{1..N - 2} = {}" by auto
    then show ?thesis by simp
  qed
  show "?s / of_int (N - 1) \<le> 1"
  proof (cases "2 \<le> N")
    case True
    then have "card {1..N - 2} = nat (N - 2)" by simp
    with s1 True have "?s \<le> of_int (N - 2)" by simp
    also have "(of_int (N - 2) :: rat) \<le> of_int (N - 1)" by simp
    finally show ?thesis using True by (simp add: divide_le_eq_1)
  next
    case False
    then have "{1..N - 2} = {}" by auto
    then show ?thesis by simp
  qed
qed

section \<open>Evaluation on the example graphs\<close>

lemma degenerate_size_code:
  "degenerate_size truth \<longleftrightarrow>
     (\<exists>k\<in>set (range_py 1 (get_num_nodes truth - 1)).
        n_C_k_sep (order_k truth truth (name_map (node_map truth)) (nat k)) = 0
        \<or> n_C_k_con (order_k truth truth (name_map (node_map truth)) (nat k)) = 0)"
proof -
  have "set (range_py 1 (get_num_nodes truth - 1)) = {1..get_num_nodes truth - 2}"
    unfolding range_py_def by auto
  then show ?thesis
    unfolding degenerate_size_def order_k_n_sep order_k_n_con by simp
qed

lemma rat_of_nat_eq_2: "(of_nat n :: rat) = 2 \<Longrightarrow> n = 2"
  using of_nat_eq_iff[of n 2, where ?'a = rat] by simp

lemma order_1_G3_edge_AB_empty:
  "order_k G3_edge_AB G3_empty (name_map (node_map G3_edge_AB)) 1
     = \<lparr>SM_k = 0, CM_k = 2, SCM_k = 2, n_C_k_con = 2, n_C_k_sep = 4\<rparr>"
  by code_simp

lemma order_1_G4_edge_AB_complete:
  "order_k G4_edge_AB G4_complete (name_map (node_map G4_edge_AB)) 1
     = \<lparr>SM_k = 20, CM_k = 0, SCM_k = 20, n_C_k_con = 4, n_C_k_sep = 20\<rparr>"
  by code_simp

lemma order_2_G4_edge_AB_complete:
  "order_k G4_edge_AB G4_complete (name_map (node_map G4_edge_AB)) 2
     = \<lparr>SM_k = 10, CM_k = 0, SCM_k = 10, n_C_k_con = 2, n_C_k_sep = 10\<rparr>"
  by code_simp

lemma SCM_G3_edge_AB_empty:
  "SCM_init G3_edge_AB G3_empty = Inr \<lparr>SM = 0, CM = 0, SCM = 1 / 6\<rparr>"
  by code_simp

lemma SCM_G3_edge_AB_complete:
  "SCM_init G3_edge_AB G3_complete = Inr \<lparr>SM = 1 / 2, CM = 1, SCM = 1 / 3\<rparr>"
  by code_simp

lemma SCM_G3_edge_AB_chain:
  "SCM_init G3_edge_AB G3_chain = Inr \<lparr>SM = 1 / 4, CM = 1 / 2, SCM = 1 / 6\<rparr>"
  by code_simp

lemma SCM_G3_chain_edge_AB:
  "SCM_init G3_chain G3_edge_AB = Inr \<lparr>SM = 0, CM = 0, SCM = 1 / 6\<rparr>"
  by code_simp

lemma SCM_G3_complete_complete: "SCM_init G3_complete G3_complete = Inl ZeroDivisionError"
  by code_simp

lemma order_1_G3_empty_edge_AB:
  "order_k G3_empty G3_edge_AB (name_map (node_map G3_empty)) 1
     = \<lparr>SM_k = 2, CM_k = 0, SCM_k = 2, n_C_k_con = 0, n_C_k_sep = 6\<rparr>"
  by code_simp

lemma SCM_G3_empty_edge_AB: "SCM_init G3_empty G3_edge_AB = Inl ZeroDivisionError"
  by code_simp

lemma SCM_G4_edge_AB_complete:
  "SCM_init G4_edge_AB G4_complete = Inr \<lparr>SM = 2 / 3, CM = 10 / 3, SCM = 5 / 9\<rparr>"
  by code_simp

lemma names_G3_edge_AB_empty: "set (node_names G3_edge_AB) = set (node_names G3_empty)"
  by code_simp

lemma names_G3_edge_AB_other: "set (node_names G3_edge_AB) \<noteq> set (node_names G3_other)"
  by code_simp

lemma names_G4_edge_AB_complete: "set (node_names G4_edge_AB) = set (node_names G4_complete)"
  by code_simp

lemma degenerate_G3_complete: "degenerate_size G3_complete"
  unfolding degenerate_size_code by code_simp

lemma not_degenerate_G3_edge_AB: "\<not> degenerate_size G3_edge_AB"
  unfolding degenerate_size_code by code_simp

lemma conditioning_as_set_single_edge:
  "conditioning_as_set (make_graph items (single_edge a b))"
  unfolding conditioning_as_set_def make_graph_def single_edge_def by simp

lemma node_count_ok_G3_edge_AB: "node_count_ok G3_edge_AB"
  by code_simp

lemma conditioning_as_set_chain_via:
  "conditioning_as_set (make_graph items (chain_via b))"
  unfolding conditioning_as_set_def make_graph_def chain_via_def
  by (simp add: filter_empty_conv)

lemma node_count_ok_G3_chain: "node_count_ok G3_chain"
  by code_simp

lemma node_count_ok_G4_edge_AB: "node_count_ok G4_edge_AB"
  by code_simp

section \<open>The claims\<close>

subsection \<open>Values of the three metrics\<close>

text \<open>
  What the constructor stores, for any two graphs on which it returns: the s-metric and the
  sc-metric are the averages of the specification, while the c-metric divides the
  spurious-connection count (\<open>SM_k\<close>, line 70) by the connected-triple count.
\<close>

lemma c_metric_as_computed:
  assumes "SCM_init truth est = Inr self"
  shows "get_c_metric self
           = (\<Sum>k = 1..get_num_nodes truth - 2.
                 of_nat (card (spurious_triples truth est (nat k)))
                   / of_nat (card (connected_triples truth (nat k))))
             / of_int (get_num_nodes truth - 1)"
  unfolding get_c_metric_def by (rule SCM_init_values(2)[OF assms])

lemma sc_metric_formula:
  assumes "SCM_init truth est = Inr self"
  shows "get_sc_metric self
           = (\<Sum>k = 1..get_num_nodes truth - 2.
                 of_nat (card (disagreeing_triples truth est (nat k)))
                   / of_nat (card (triples (node_names truth) (nat k))))
             / of_int (get_num_nodes truth - 1)"
  unfolding get_sc_metric_def SCM_init_values(3)[OF assms] card_separated_connected ..

text \<open>
  Whenever the constructor returns, the s-metric and the sc-metric lie in the closed unit
  interval, and the c-metric is not negative.
\<close>

lemma s_and_sc_metric_bounds:
  assumes "SCM_init truth est = Inr self"
  shows "0 \<le> get_s_metric self \<and> get_s_metric self \<le> 1
       \<and> 0 \<le> get_sc_metric self \<and> get_sc_metric self \<le> 1"
proof -
  note N = SCM_init_Inr(2)[OF assms]
  have fin: "finite (separated_triples truth k)" for k
    unfolding separated_triples_def using finite_triples by simp
  have "spurious_triples truth est k \<subseteq> separated_triples truth k" for k
    unfolding spurious_triples_def separated_triples_def by auto
  then have le1: "card (spurious_triples truth est (nat k)) \<le> card (separated_triples truth (nat k))" for k
    using fin by (simp add: card_mono)
  have "disagreeing_triples truth est k \<subseteq> triples (node_names truth) k" for k
    unfolding disagreeing_triples_def by auto
  then have "card (disagreeing_triples truth est k) \<le> card (triples (node_names truth) k)" for k
    using finite_triples by (simp add: card_mono)
  then have le2: "card (disagreeing_triples truth est (nat k))
      \<le> card (separated_triples truth (nat k)) + card (connected_triples truth (nat k))" for k
    by (simp add: card_separated_connected)
  show ?thesis
    unfolding get_s_metric_def get_sc_metric_def SCM_init_values[OF assms]
    using ratio_sum_bounds[of "\<lambda>k. card (spurious_triples truth est (nat k))"
            "\<lambda>k. card (separated_triples truth (nat k))" "get_num_nodes truth", OF le1 N]
          ratio_sum_bounds[of "\<lambda>k. card (disagreeing_triples truth est (nat k))"
            "\<lambda>k. card (separated_triples truth (nat k)) + card (connected_triples truth (nat k))"
            "get_num_nodes truth", OF le2 N]
    by simp
qed

text \<open>
  C1. The claim: for graphs with identical node-name sets and \<open>N \<ge> 3\<close>, the c-metric is
  the sum over \<open>k = 1..N-2\<close> of (missed-connection count / connected-triple count), divided
  by \<open>N - 1\<close>. The constructor counts the missed connections in \<open>CM_k\<close> and never reads
  that counter: line 70 divides \<open>SM_k\<close>. On the three nodes A, B, C, with the single edge
  between A and B as truth and the graph without edges as estimate, the size-1 counts are
  2 missed connections, 2 connected triples and 0 spurious connections, so the claimed
  value is \<open>(2 / 2) / 2 = 1 / 2\<close>, and the constructor stores the c-metric 0.
\<close>

theorem c_metric_ignores_missed_count:
  "get_num_nodes G3_edge_AB = 3
   \<and> set (node_names G3_edge_AB) = set (node_names G3_empty)
   \<and> card (missed_triples G3_edge_AB G3_empty 1) = 2
   \<and> card (connected_triples G3_edge_AB 1) = 2
   \<and> card (spurious_triples G3_edge_AB G3_empty 1) = 0
   \<and> SCM_init G3_edge_AB G3_empty = Inr \<lparr>SM = 0, CM = 0, SCM = 1 / 6\<rparr>
   \<and> get_c_metric \<lparr>SM = 0, CM = 0, SCM = 1 / 6\<rparr> = 0"
proof -
  have "get_num_nodes G3_edge_AB = 3"
    by (simp add: G3_edge_AB_def make_graph_def nodes_ABC_def)
  moreover have "card (missed_triples G3_edge_AB G3_empty 1) = 2"
    using order_k_CM[of G3_edge_AB G3_empty 1] order_1_G3_edge_AB_empty
    by (simp add: rat_of_nat_eq_2)
  moreover have "card (connected_triples G3_edge_AB 1) = 2"
    using order_k_n_con[of G3_edge_AB G3_empty 1] order_1_G3_edge_AB_empty by simp
  moreover have "card (spurious_triples G3_edge_AB G3_empty 1) = 0"
    using order_k_SM[of G3_edge_AB G3_empty 1] order_1_G3_edge_AB_empty by simp
  ultimately show ?thesis
    using names_G3_edge_AB_empty SCM_G3_edge_AB_empty by (simp add: get_c_metric_def)
qed

text \<open>
  C2. For graphs with identical node-name sets, whenever the constructor returns, the
  value of \<open>get_s_metric\<close> is the sum over the subset sizes \<open>k = 1..N-2\<close> of
  (spurious-connection count / separated-triple count), divided by \<open>N - 1\<close>, where the
  spurious connections of size \<open>k\<close> are the triples that truth reports d-separated and est
  reports d-connected. (A returned object implies identical node-name sets; the equation
  holds for every \<open>N\<close>, in particular for \<open>N \<ge> 3\<close>.)
\<close>

theorem s_metric_formula:
  assumes "SCM_init truth est = Inr self"
  shows "get_s_metric self
           = (\<Sum>k = 1..get_num_nodes truth - 2.
                 of_nat (card (spurious_triples truth est (nat k)))
                   / of_nat (card (separated_triples truth (nat k))))
             / of_int (get_num_nodes truth - 1)"
  unfolding get_s_metric_def by (rule SCM_init_values(1)[OF assms])

theorem s_metric_formula_witness:
  "SCM_init G3_edge_AB G3_complete = Inr \<lparr>SM = 1 / 2, CM = 1, SCM = 1 / 3\<rparr>
   \<and> (\<Sum>k = 1..get_num_nodes G3_edge_AB - 2.
          of_nat (card (spurious_triples G3_edge_AB G3_complete (nat k)))
            / of_nat (card (separated_triples G3_edge_AB (nat k))))
       / of_int (get_num_nodes G3_edge_AB - 1) = (1 / 2 :: rat)"
  using s_metric_formula[OF SCM_G3_edge_AB_complete] SCM_G3_edge_AB_complete
  by (simp add: get_s_metric_def)

text \<open>
  C3. For two graphs that satisfy the contract of the graph collaborator and on which the
  constructor returns in both orders, swapping truth and est leaves the sc-metric
  unchanged.
\<close>

theorem sc_metric_symmetric:
  assumes a: "SCM_init truth est = Inr a" and b: "SCM_init est truth = Inr b"
    and ct: "conditioning_as_set truth" and ce: "conditioning_as_set est"
    and nt: "node_count_ok truth" and ne: "node_count_ok est"
  shows "get_sc_metric a = get_sc_metric b"
proof -
  note names = SCM_init_Inr(1)[OF a]
  have N: "get_num_nodes est = get_num_nodes truth"
    using node_count_eq[OF nt ne names] by simp
  have d: "disagreeing_triples est truth k = disagreeing_triples truth est k" for k
    using disagreeing_swap[OF ct ce names, of k] by simp
  have t: "card (separated_triples est k) + card (connected_triples est k)
         = card (separated_triples truth k) + card (connected_triples truth k)" for k
    unfolding card_separated_connected using triples_set_cong[OF names, of k] by simp
  show ?thesis
    unfolding get_sc_metric_def SCM_init_values(3)[OF a] SCM_init_values(3)[OF b] N d t ..
qed

theorem sc_metric_symmetric_witness:
  "SCM_init G3_edge_AB G3_chain = Inr \<lparr>SM = 1 / 4, CM = 1 / 2, SCM = 1 / 6\<rparr>
   \<and> SCM_init G3_chain G3_edge_AB = Inr \<lparr>SM = 0, CM = 0, SCM = 1 / 6\<rparr>
   \<and> conditioning_as_set G3_edge_AB \<and> conditioning_as_set G3_chain
   \<and> node_count_ok G3_edge_AB \<and> node_count_ok G3_chain
   \<and> get_sc_metric \<lparr>SM = 1 / 4, CM = 1 / 2, SCM = 1 / 6\<rparr>
       = get_sc_metric \<lparr>SM = 0, CM = 0, SCM = 1 / 6\<rparr>"
proof -
  have c1: "conditioning_as_set G3_edge_AB"
    unfolding G3_edge_AB_def by (rule conditioning_as_set_single_edge)
  have c2: "conditioning_as_set G3_chain"
    unfolding G3_chain_def by (rule conditioning_as_set_chain_via)
  from sc_metric_symmetric[OF SCM_G3_edge_AB_chain SCM_G3_chain_edge_AB c1 c2
         node_count_ok_G3_edge_AB node_count_ok_G3_chain]
  show ?thesis
    using SCM_G3_edge_AB_chain SCM_G3_chain_edge_AB c1 c2
      node_count_ok_G3_edge_AB node_count_ok_G3_chain
    by simp
qed

text \<open>
  C4. The claim: for every graph with \<open>N \<ge> 3\<close> nodes, constructing the engine with that
  graph as both truth and est yields s-metric = c-metric = sc-metric = 0. It fails on the
  complete graph on three nodes: every triple of size 1 is d-connected, the
  separated-triple count is zero, and the division of line 69 raises.
\<close>

theorem identical_graphs_counterexample:
  "3 \<le> get_num_nodes G3_complete
   \<and> SCM_init G3_complete G3_complete = Inl ZeroDivisionError"
  using SCM_G3_complete_complete
  by (simp add: G3_complete_def make_graph_def nodes_ABC_def)

text \<open>
  C4, amended. For every graph with \<open>N \<ge> 3\<close> nodes in which every subset size
  \<open>k = 1..N-2\<close> has at least one d-connected and at least one d-separated triple,
  constructing the engine with that graph as both truth and est returns an object whose
  s-metric, c-metric and sc-metric are 0.
\<close>

theorem identical_graphs_zero:
  assumes "3 \<le> get_num_nodes g" and "\<not> degenerate_size g"
  shows "\<exists>self. SCM_init g g = Inr self
           \<and> get_s_metric self = 0 \<and> get_c_metric self = 0 \<and> get_sc_metric self = 0"
proof -
  from assms have "get_num_nodes g \<noteq> 1 \<and> \<not> degenerate_size g" by simp
  with SCM_init_succeeds[of g g] obtain self where s: "SCM_init g g = Inr self" by auto
  have sp: "spurious_triples g g k = {}" for k
    unfolding spurious_triples_def by simp
  have di: "disagreeing_triples g g k = {}" for k
    unfolding disagreeing_triples_def by simp
  have "SM self = 0" "CM self = 0" "SCM self = 0"
    unfolding SCM_init_values[OF s] sp di by simp_all
  with s show ?thesis
    unfolding get_s_metric_def get_c_metric_def get_sc_metric_def by simp
qed

theorem identical_graphs_zero_witness:
  "3 \<le> get_num_nodes G3_edge_AB \<and> \<not> degenerate_size G3_edge_AB
   \<and> SCM_init G3_edge_AB G3_edge_AB = Inr \<lparr>SM = 0, CM = 0, SCM = 0\<rparr>"
proof -
  have n: "3 \<le> get_num_nodes G3_edge_AB"
    by (simp add: G3_edge_AB_def make_graph_def nodes_ABC_def)
  from identical_graphs_zero[OF n not_degenerate_G3_edge_AB]
  obtain self where "SCM_init G3_edge_AB G3_edge_AB = Inr self"
    and "get_s_metric self = 0" "get_c_metric self = 0" "get_sc_metric self = 0"
    by blast
  then have "SCM_init G3_edge_AB G3_edge_AB = Inr \<lparr>SM = 0, CM = 0, SCM = 0\<rparr>"
    unfolding get_s_metric_def get_c_metric_def get_sc_metric_def by (cases self) simp
  with n not_degenerate_G3_edge_AB show ?thesis by simp
qed

text \<open>
  C5. The claim: when all per-size denominators are non-zero, each of the three accessor
  values lies in \<open>[0, 1]\<close>. This holds for the s-metric and the sc-metric
  (\<open>s_and_sc_metric_bounds\<close>), and fails for the c-metric, because line 70 divides the
  spurious-connection count by the connected-triple count. On the four nodes A, B, C, D,
  with the single edge between A and B as truth and the complete graph as estimate, all
  four denominators are non-zero and the c-metric is \<open>(20 / 4 + 10 / 2) / 3 = 10 / 3\<close>.
\<close>

theorem c_metric_above_one:
  "get_num_nodes G4_edge_AB = 4
   \<and> set (node_names G4_edge_AB) = set (node_names G4_complete)
   \<and> card (connected_triples G4_edge_AB 1) = 4
   \<and> card (separated_triples G4_edge_AB 1) = 20
   \<and> card (connected_triples G4_edge_AB 2) = 2
   \<and> card (separated_triples G4_edge_AB 2) = 10
   \<and> SCM_init G4_edge_AB G4_complete = Inr \<lparr>SM = 2 / 3, CM = 10 / 3, SCM = 5 / 9\<rparr>
   \<and> 1 < get_c_metric \<lparr>SM = 2 / 3, CM = 10 / 3, SCM = 5 / 9\<rparr>"
proof -
  have "get_num_nodes G4_edge_AB = 4"
    by (simp add: G4_edge_AB_def make_graph_def nodes_ABCD_def)
  moreover have "card (connected_triples G4_edge_AB 1) = 4"
    using order_k_n_con[of G4_edge_AB G4_complete 1] order_1_G4_edge_AB_complete by simp
  moreover have "card (separated_triples G4_edge_AB 1) = 20"
    using order_k_n_sep[of G4_edge_AB G4_complete 1] order_1_G4_edge_AB_complete by simp
  moreover have "card (connected_triples G4_edge_AB 2) = 2"
    using order_k_n_con[of G4_edge_AB G4_complete 2] order_2_G4_edge_AB_complete by simp
  moreover have "card (separated_triples G4_edge_AB 2) = 10"
    using order_k_n_sep[of G4_edge_AB G4_complete 2] order_2_G4_edge_AB_complete by simp
  ultimately show ?thesis
    using names_G4_edge_AB_complete SCM_G4_edge_AB_complete by (simp add: get_c_metric_def)
qed

text \<open>
  C6. When the node-name sets of the two graphs differ, the constructor fails with the
  assertion error of line 26. The result does not depend on \<open>get_node\<close> or
  \<open>is_dconnected_to\<close> of either graph, and no object is returned.
\<close>

theorem graph_mismatch:
  assumes "set (node_names truth) \<noteq> set (node_names est)"
  shows "SCM_init truth est = Inl AssertionError"
  using assms by (rule SCM_init_mismatch)

theorem graph_mismatch_witness:
  "set (node_names G3_edge_AB) \<noteq> set (node_names G3_other)
   \<and> SCM_init G3_edge_AB G3_other = Inl AssertionError"
  using graph_mismatch[OF names_G3_edge_AB_other] names_G3_edge_AB_other by simp

text \<open>
  C7. The claim: for graphs with identical node-name sets, including pairs where some
  subset size has a zero connected-triple count or a zero separated-triple count, a single
  documented zero-denominator policy is applied and the accessors never return NaN or Inf.
  The constructor has no such policy: lines 69 to 71 divide by the counts as they are, and
  neither a comment nor the docstring mentions a zero count. With the graph without edges
  on A, B, C as truth and the single edge between A and B as estimate, the node-name sets
  are identical, the size-1 counts are 6 separated triples and 0 connected triples, line 69
  adds \<open>2 / 6\<close>, and the division of line 70 raises: no object is built and no accessor
  can be called.
\<close>

theorem zero_denominator_counterexample:
  "set (node_names G3_empty) = set (node_names G3_edge_AB)
   \<and> card (separated_triples G3_empty 1) = 6
   \<and> card (connected_triples G3_empty 1) = 0
   \<and> SCM_init G3_empty G3_edge_AB = Inl ZeroDivisionError"
proof -
  have "card (separated_triples G3_empty 1) = 6"
    using order_k_n_sep[of G3_empty G3_edge_AB 1] order_1_G3_empty_edge_AB by simp
  moreover have "card (connected_triples G3_empty 1) = 0"
    using order_k_n_con[of G3_empty G3_edge_AB 1] order_1_G3_empty_edge_AB by simp
  ultimately show ?thesis
    using names_G3_edge_AB_empty SCM_G3_empty_edge_AB by simp
qed

text \<open>
  C7, amended. For graphs with identical node-name sets, no zero-denominator policy is
  applied: when some subset size \<open>k = 1..N-2\<close> has a zero separated-triple count or a
  zero connected-triple count (or \<open>N = 1\<close>), the constructor raises
  \<open>ZeroDivisionError\<close> and returns no object, hence no accessor value; otherwise it
  returns an object, and every division it made had a divisor other than zero.
\<close>

theorem zero_denominator_raises:
  assumes "set (node_names truth) = set (node_names est)"
  shows "(degenerate_size truth \<or> get_num_nodes truth = 1
            \<longrightarrow> SCM_init truth est = Inl ZeroDivisionError)
       \<and> (\<not> degenerate_size truth \<and> get_num_nodes truth \<noteq> 1
            \<longrightarrow> (\<exists>self. SCM_init truth est = Inr self))"
proof (intro conjI impI)
  assume "degenerate_size truth \<or> get_num_nodes truth = 1"
  with SCM_init_succeeds[OF assms] have "\<nexists>self. SCM_init truth est = Inr self" by auto
  then obtain e where e: "SCM_init truth est = Inl e" by (cases "SCM_init truth est") auto
  from SCM_init_error[OF e] assms have "e = ZeroDivisionError" by simp
  with e show "SCM_init truth est = Inl ZeroDivisionError" by simp
next
  assume "\<not> degenerate_size truth \<and> get_num_nodes truth \<noteq> 1"
  with SCM_init_succeeds[OF assms] show "\<exists>self. SCM_init truth est = Inr self" by auto
qed

theorem zero_denominator_raises_witness:
  "set (node_names G3_complete) = set (node_names G3_complete)
   \<and> degenerate_size G3_complete
   \<and> SCM_init G3_complete G3_complete = Inl ZeroDivisionError
   \<and> set (node_names G3_edge_AB) = set (node_names G3_empty)
   \<and> \<not> degenerate_size G3_edge_AB \<and> get_num_nodes G3_edge_AB \<noteq> 1
   \<and> (\<exists>self. SCM_init G3_edge_AB G3_empty = Inr self)"
proof -
  have n: "get_num_nodes G3_edge_AB \<noteq> 1"
    by (simp add: G3_edge_AB_def make_graph_def nodes_ABC_def)
  from zero_denominator_raises[of G3_complete G3_complete] degenerate_G3_complete
  have "SCM_init G3_complete G3_complete = Inl ZeroDivisionError" by simp
  moreover from zero_denominator_raises[OF names_G3_edge_AB_empty] not_degenerate_G3_edge_AB n
  have "\<exists>self. SCM_init G3_edge_AB G3_empty = Inr self" by simp
  ultimately show ?thesis
    using degenerate_G3_complete names_G3_edge_AB_empty not_degenerate_G3_edge_AB n by simp
qed

text \<open>
  C8. For graphs with identical node-name sets and \<open>N = 2\<close>, the loop over the subset
  sizes runs zero times and the constructor returns an object whose three values are 0.
\<close>

theorem two_nodes_defined:
  assumes "set (node_names truth) = set (node_names est)" and "get_num_nodes truth = 2"
  shows "range_py 1 (get_num_nodes truth - 1) = []
       \<and> SCM_init truth est = Inr \<lparr>SM = 0, CM = 0, SCM = 0\<rparr>
       \<and> get_s_metric \<lparr>SM = 0, CM = 0, SCM = 0\<rparr> = 0
       \<and> get_c_metric \<lparr>SM = 0, CM = 0, SCM = 0\<rparr> = 0
       \<and> get_sc_metric \<lparr>SM = 0, CM = 0, SCM = 0\<rparr> = 0"
  using assms unfolding SCM_init_def node_names_def range_py_def
  by (simp add: Let_def get_s_metric_def get_c_metric_def get_sc_metric_def)

theorem two_nodes_defined_witness:
  "set (node_names G2_edge_AB) = set (node_names G2_edge_AB) \<and> get_num_nodes G2_edge_AB = 2
   \<and> SCM_init G2_edge_AB G2_edge_AB = Inr \<lparr>SM = 0, CM = 0, SCM = 0\<rparr>"
proof -
  have n: "get_num_nodes G2_edge_AB = 2"
    by (simp add: G2_edge_AB_def make_graph_def nodes_AB_def)
  from two_nodes_defined[OF refl n] n show ?thesis by simp
qed

text \<open>
  C9. For a truth graph whose node count is the number of its node names, and every
  subset size \<open>k\<close>: the loop body runs once for each element of the list of visited
  triples, that list has no repetition, it corresponds one to one to the triples
  \<open>(X, Y, S)\<close> with \<open>|S| = k\<close>, and the connected-triple count plus the separated-triple
  count is \<open>C(N, k) * (N - k) * (N - k - 1)\<close>.
\<close>

theorem triples_visited_once:
  assumes "node_count_ok truth"
  shows "order_k truth est (name_map (node_map truth)) k
           = fold (tally truth est) (visited (node_names truth) k)
               \<lparr>SM_k = 0, CM_k = 0, SCM_k = 0, n_C_k_con = 0, n_C_k_sep = 0\<rparr>
       \<and> distinct (visited (node_names truth) k)
       \<and> bij_betw of_visit (set (visited (node_names truth) k)) (triples (node_names truth) k)
       \<and> n_C_k_con (order_k truth est (name_map (node_map truth)) k)
           + n_C_k_sep (order_k truth est (name_map (node_map truth)) k)
         = (nat (get_num_nodes truth) choose k)
             * (nat (get_num_nodes truth) - k) * (nat (get_num_nodes truth) - k - 1)"
proof -
  have N: "nat (get_num_nodes truth) = length (node_names truth)"
    using assms unfolding node_count_ok_def by simp
  show ?thesis
    unfolding N order_k_total
    using order_k_visited[of truth est k] distinct_visited[OF distinct_node_names, of truth k]
      bij_betw_of_visit[OF distinct_node_names, of truth k]
      length_visited[OF distinct_node_names, of truth k]
    by (simp add: mult.assoc)
qed

theorem triples_visited_once_witness:
  "node_count_ok G4_edge_AB
   \<and> n_C_k_con (order_k G4_edge_AB G4_complete (name_map (node_map G4_edge_AB)) 2)
       + n_C_k_sep (order_k G4_edge_AB G4_complete (name_map (node_map G4_edge_AB)) 2)
     = 12"
proof -
  have n: "nat (get_num_nodes G4_edge_AB) = 4"
    by (simp add: G4_edge_AB_def make_graph_def nodes_ABCD_def)
  have b: "(4 choose 2) * (4 - 2) * (4 - 2 - 1) = (12::nat)"
    by code_simp
  from triples_visited_once[OF node_count_ok_G4_edge_AB, of G4_complete 2]
  have "n_C_k_con (order_k G4_edge_AB G4_complete (name_map (node_map G4_edge_AB)) 2)
          + n_C_k_sep (order_k G4_edge_AB G4_complete (name_map (node_map G4_edge_AB)) 2)
        = (nat (get_num_nodes G4_edge_AB) choose 2)
            * (nat (get_num_nodes G4_edge_AB) - 2) * (nat (get_num_nodes G4_edge_AB) - 2 - 1)"
    by blast
  then show ?thesis unfolding n b using node_count_ok_G4_edge_AB by simp
qed

text \<open>
  C10. For graphs with identical node-name sets and \<open>N = 1\<close>, the loop over the subset
  sizes passes without a division, and the constructor raises \<open>ZeroDivisionError\<close> at
  the division by \<open>N - 1 = 0\<close> of line 73, so that no object is returned.
\<close>

theorem single_node_raises:
  assumes "set (node_names truth) = set (node_names est)" and "get_num_nodes truth = 1"
  shows "loop_k truth est (name_map (node_map truth)) (range_py 1 (get_num_nodes truth - 1))
             \<lparr>SM = 0, CM = 0, SCM = 0\<rparr>
           = Inr \<lparr>SM = 0, CM = 0, SCM = 0\<rparr>
       \<and> SCM_init truth est = Inl ZeroDivisionError"
  using assms unfolding SCM_init_def node_names_def range_py_def
  by (simp add: Let_def)

theorem single_node_raises_witness:
  "set (node_names G1) = set (node_names G1) \<and> get_num_nodes G1 = 1
   \<and> SCM_init G1 G1 = Inl ZeroDivisionError"
proof -
  have n: "get_num_nodes G1 = 1"
    by (simp add: G1_def make_graph_def nodes_A_def)
  from single_node_raises[OF refl n] n show ?thesis by simp
qed

end
